theory Spec2Isabelle
  imports Main "HOL-Library.Sublist"
begin

section \<open>Errors and callbacks\<close>

text \<open>
  A Go \<^verbatim>\<open>error\<close> is an interface value with one method, \<^verbatim>\<open>Error() string\<close>; \<^verbatim>\<open>nil\<close>
  is the absence of an error. An error value is modelled by the message it carries and a
  nil-able error by \<open>error option\<close>.
\<close>

datatype error = errorString (Error: string)

text \<open>
  \<^verbatim>\<open>type Func func(ctx context.Context) error\<close>. The context is opaque to the registry, so
  it is a type parameter. A callback is a total function of the context: it returns, it does
  not panic, it is not nil, and its result does not depend on when it is scheduled.
\<close>

type_synonym 'ctx Func = "'ctx \<Rightarrow> error option"

text \<open>\<^verbatim>\<open>const ErrAllServicesClosed = "all services closed"\<close>\<close>

definition ErrAllServicesClosed :: string where
  "ErrAllServicesClosed = ''all services closed''"

text \<open>\<^verbatim>\<open>fmt.Errorf("%s: %v", op, v)\<close> for a string \<open>v\<close>.\<close>

definition Errorf :: "string \<Rightarrow> string \<Rightarrow> error" where
  "Errorf op v = errorString (op @ '': '' @ v)"

text \<open>\<^verbatim>\<open>strings.Join(elems, sep)\<close>\<close>

fun Join :: "string list \<Rightarrow> string \<Rightarrow> string" where
  "Join [] sep = []"
| "Join [x] sep = x"
| "Join (x # y # ys) sep = x @ sep @ Join (y # ys) sep"

text \<open>\<^verbatim>\<open>strings.Contains(s, substr)\<close>, which \<^verbatim>\<open>require.ErrorContains\<close> applies to the error text.\<close>

definition Contains :: "string \<Rightarrow> string \<Rightarrow> bool" where
  "Contains s substr = sublist substr s"

section \<open>The registry\<close>

text \<open>
  \<^verbatim>\<open>type Closer struct { mu sync.Mutex; funcs []Func; size int; i int }\<close>.
  The operations are modelled one at a time, each running from its beginning to its end,
  so the mutex has no field here. The fields \<^verbatim>\<open>size\<close> and \<^verbatim>\<open>i\<close> are Go
  \<^verbatim>\<open>int\<close>s; \<^verbatim>\<open>size\<close> counts the elements of a slice held in memory, so it stays far below
  the point where \<^verbatim>\<open>size++\<close> would wrap, and both are modelled as \<open>int\<close>.
\<close>

record 'ctx Closer =
  funcs :: "'ctx Func list"
  size_c :: int
  i :: int

text \<open>The zero value, \<^verbatim>\<open>var cl closer.Closer\<close>.\<close>

definition zero_Closer :: "'ctx Closer" where
  "zero_Closer = \<lparr>funcs = [], size_c = 0, i = 0\<rparr>"

text \<open>
  What a call does: it returns an error or nil, it panics at run time (an index or a slice
  bound out of range, a negative capacity), or it blocks for ever on a channel send.
\<close>

datatype outcome = Returned "error option" | Panicked | Blocked

text \<open>
  A call yields its outcome, the positions in \<^verbatim>\<open>funcs\<close> of the callbacks it invoked (in the
  order it started them) and the registry as it leaves it.
\<close>

type_synonym 'ctx ret = "outcome \<times> nat list \<times> 'ctx Closer"

definition Add :: "'ctx Func \<Rightarrow> 'ctx Closer \<Rightarrow> 'ctx Closer" where
  "Add f c = c\<lparr>funcs := funcs c @ [f], size_c := size_c c + 1\<rparr>"

definition Size :: "'ctx Closer \<Rightarrow> int" where
  "Size c = size_c c"

subsection \<open>\<^verbatim>\<open>Close\<close> of \<^verbatim>\<open>closer.go\<close>: one goroutine and one channel per callback\<close>

text \<open>
  \<^verbatim>\<open>execF\<close> makes a channel of capacity 1 and starts a goroutine that calls \<open>f\<close>, sends
  the error if it is not nil, and closes the channel. The goroutine touches nothing but its
  own channel and the wait group, and \<^verbatim>\<open>Close\<close> reads the channels only after
  \<^verbatim>\<open>wg.Wait()\<close>; the channel is modelled by the values it delivers before it is closed.
\<close>

definition execF :: "'ctx \<Rightarrow> 'ctx Func \<Rightarrow> error option list" where
  "execF ctx f = (let err = f ctx in if err \<noteq> None then [err] else [])"

text \<open>\<^verbatim>\<open>for err := range el { if err != nil { fErrors = append(fErrors, err.Error()) } }\<close>\<close>

fun collect_chan :: "string list \<Rightarrow> error option list \<Rightarrow> string list" where
  "collect_chan fErrors [] = fErrors"
| "collect_chan fErrors (err # el) =
     collect_chan (case err of None \<Rightarrow> fErrors | Some e \<Rightarrow> fErrors @ [Error e]) el"

text \<open>\<^verbatim>\<open>for _, el := range fErrorChanels { ... }\<close>\<close>

fun collect_chans :: "string list \<Rightarrow> error option list list \<Rightarrow> string list" where
  "collect_chans fErrors [] = fErrors"
| "collect_chans fErrors (el # els) = collect_chans (collect_chan fErrors el) els"

definition Close :: "'ctx \<Rightarrow> 'ctx Closer \<Rightarrow> 'ctx ret" where
  "Close ctx c =
    (let op = ''closer.Close'' in
     if i c \<ge> size_c c then (Returned (Some (Errorf op ErrAllServicesClosed)), [], c)
     else if size_c c < 0 then (Panicked, [], c)
     else if i c < 0 \<or> int (length (funcs c)) < i c then (Panicked, [], c)
     else
       let fErrorChanels = map (execF ctx) (drop (nat (i c)) (funcs c));
           fErrors = collect_chans [] fErrorChanels;
           c' = c\<lparr>i := size_c c\<rparr>
       in (if length fErrors > 0 then Returned (Some (Errorf op (Join fErrors ''; '')))
           else Returned None,
           [nat (i c) ..< length (funcs c)], c'))"

subsection \<open>\<^verbatim>\<open>CloseOne\<close>\<close>

text \<open>
  The same text in \<^verbatim>\<open>closer.go\<close> and \<^verbatim>\<open>closer/closer.go\<close>, as are \<^verbatim>\<open>Add\<close> and
  \<^verbatim>\<open>Size\<close>. The closure checks the guard and increments \<^verbatim>\<open>c.i\<close>; then
  \<^verbatim>\<open>c.funcs[prev](ctx)\<close> indexes the slice, which panics out of range.
\<close>

definition CloseOne :: "'ctx \<Rightarrow> 'ctx Closer \<Rightarrow> 'ctx ret" where
  "CloseOne ctx c =
    (let op = ''closer.CloseOne''; prev = i c in
     if i c \<ge> size_c c then (Returned (Some (Errorf op ErrAllServicesClosed)), [], c)
     else
       let c' = c\<lparr>i := i c + 1\<rparr> in
       if prev < 0 \<or> int (length (funcs c')) \<le> prev then (Panicked, [], c')
       else (Returned ((funcs c' ! nat prev) ctx), [nat prev], c'))"

subsection \<open>\<^verbatim>\<open>Close\<close> of \<^verbatim>\<open>closer/closer.go\<close>: synchronous calls and one shared channel\<close>

text \<open>
  Here \<^verbatim>\<open>execF\<close> is called without \<^verbatim>\<open>go\<close>: it runs \<open>f\<close> in the caller and sends a
  non-nil error on the channel it is given. The channel is buffered; it is modelled by its
  capacity and the queue of values it holds. Nothing receives while \<^verbatim>\<open>Close\<close> is still
  dispatching, so a send on a full channel never completes: \<open>None\<close>.
\<close>

definition execF_shared ::
  "'ctx \<Rightarrow> 'ctx Func \<Rightarrow> nat \<Rightarrow> error option list \<Rightarrow> error option list option" where
  "execF_shared ctx f cap errCh =
    (let err = f ctx in
     if err \<noteq> None then (if length errCh < cap then Some (errCh @ [err]) else None)
     else Some errCh)"

text \<open>
  \<^verbatim>\<open>for _, f := range c.funcs[c.i:] { wg.Add(1); execF(ctx, f, &wg, fErrChan) }\<close>, counting
  the callbacks it has called in \<open>k\<close>.
\<close>

fun dispatch ::
  "'ctx \<Rightarrow> nat \<Rightarrow> 'ctx Func list \<Rightarrow> nat \<Rightarrow> error option list \<Rightarrow> nat \<times> error option list option" where
  "dispatch ctx cap [] k errCh = (k, Some errCh)"
| "dispatch ctx cap (f # fs) k errCh =
    (case execF_shared ctx f cap errCh of
       None \<Rightarrow> (Suc k, None)
     | Some errCh' \<Rightarrow> dispatch ctx cap fs (Suc k) errCh')"

text \<open>
  \<^verbatim>\<open>for range length { select { case err := <-fErrChan: ...; default: break } }\<close>: each
  round takes the head of the queue if there is one; the \<^verbatim>\<open>break\<close> leaves the
  \<^verbatim>\<open>select\<close> only, so the rounds go on.
\<close>

fun drain :: "nat \<Rightarrow> error option list \<Rightarrow> string list \<Rightarrow> string list" where
  "drain 0 errCh fErrors = fErrors"
| "drain (Suc n) [] fErrors = drain n [] fErrors"
| "drain (Suc n) (err # errCh) fErrors =
     drain n errCh (case err of None \<Rightarrow> fErrors | Some e \<Rightarrow> fErrors @ [Error e])"

definition Close_shared :: "'ctx \<Rightarrow> 'ctx Closer \<Rightarrow> 'ctx ret" where
  "Close_shared ctx c =
    (let op = ''closer.Close'' in
     if i c \<ge> size_c c then (Returned (Some (Errorf op ErrAllServicesClosed)), [], c)
     else
       let len = size_c c - i c in
       if i c < 0 \<or> int (length (funcs c)) < i c then (Panicked, [], c)
       else
         (case dispatch ctx (nat len) (drop (nat (i c)) (funcs c)) 0 [] of
            (k, None) \<Rightarrow> (Blocked, [nat (i c) ..< nat (i c) + k], c)
          | (k, Some fErrChan) \<Rightarrow>
              let fErrors = drain (nat len) fErrChan [];
                  c' = c\<lparr>i := size_c c\<rparr>
              in (if length fErrors > 0 then Returned (Some (Errorf op (Join fErrors ''; '')))
                  else Returned None,
                  [nat (i c) ..< nat (i c) + k], c')))"

text \<open>\<^verbatim>\<open>func (c *Closer) reset()\<close> of \<^verbatim>\<open>closer/closer.go\<close>, used by its benchmarks.\<close>

definition reset :: "'ctx Closer \<Rightarrow> 'ctx Closer" where
  "reset c = c\<lparr>i := 0\<rparr>"

subsection \<open>Registries and sequences of calls\<close>

text \<open>The invariant of the three fields.\<close>

definition invariant :: "'ctx Closer \<Rightarrow> bool" where
  "invariant c = (0 \<le> i c \<and> i c \<le> size_c c \<and> size_c c = int (length (funcs c)))"

text \<open>The registry after \<^verbatim>\<open>Add\<close> has been called on the zero value with each of \<open>fs\<close> in turn.\<close>

definition registry :: "'ctx Func list \<Rightarrow> 'ctx Closer" where
  "registry fs = foldl (\<lambda>c f. Add f c) zero_Closer fs"

text \<open>One \<^verbatim>\<open>CloseOne\<close> call per context of the list, each on the registry the last one left.\<close>

fun CloseOne_seq :: "'ctx list \<Rightarrow> 'ctx Closer \<Rightarrow> (outcome \<times> nat list) list \<times> 'ctx Closer" where
  "CloseOne_seq [] c = ([], c)"
| "CloseOne_seq (ctx # ctxs) c =
    (case CloseOne ctx c of
       (r, called, c') \<Rightarrow>
         (case CloseOne_seq ctxs c' of (rs, c'') \<Rightarrow> ((r, called) # rs, c'')))"

text \<open>The calls a user of the package \<^verbatim>\<open>closer.go\<close> can make that may change the registry.\<close>

datatype 'ctx op = OpAdd "'ctx Func" | OpClose 'ctx | OpCloseOne 'ctx

fun is_close :: "'ctx op \<Rightarrow> bool" where
  "is_close (OpAdd f) = False"
| "is_close (OpClose ctx) = True"
| "is_close (OpCloseOne ctx) = True"

fun apply_op :: "'ctx op \<Rightarrow> 'ctx Closer \<Rightarrow> 'ctx Closer" where
  "apply_op (OpAdd f) c = Add f c"
| "apply_op (OpClose ctx) c = snd (snd (Close ctx c))"
| "apply_op (OpCloseOne ctx) c = snd (snd (CloseOne ctx c))"

fun run :: "'ctx op list \<Rightarrow> 'ctx Closer \<Rightarrow> 'ctx Closer" where
  "run [] c = c"
| "run (x # xs) c = run xs (apply_op x c)"

text \<open>
  The callbacks of a list that fail under a context, in the order of the list, and the
  messages of their errors.
\<close>

definition failed :: "'ctx \<Rightarrow> 'ctx Func list \<Rightarrow> 'ctx Func list" where
  "failed ctx fs = filter (\<lambda>f. f ctx \<noteq> None) fs"

definition messages :: "'ctx \<Rightarrow> 'ctx Func list \<Rightarrow> string list" where
  "messages ctx fs = map (\<lambda>f. Error (the (f ctx))) (failed ctx fs)"

subsection \<open>The lock discipline\<close>

text \<open>
  What each method does to the mutex and to the three fields, statement by statement, as a
  list of events, on a run in which nothing panics. \<open>Invoke k\<close> is the call of
  \<^verbatim>\<open>funcs[k]\<close>.
\<close>

datatype field = Field_funcs | Field_size | Field_i

datatype event = Lock | Unlock | Read field | Write field | Invoke nat

text \<open>
  \<^verbatim>\<open>Add\<close>: \<^verbatim>\<open>c.mu.Lock(); defer c.mu.Unlock(); c.funcs = append(c.funcs, f); c.size++\<close>
\<close>

definition Add_events :: "event list" where
  "Add_events =
    [Lock, Read Field_funcs, Write Field_funcs, Read Field_size, Write Field_size, Unlock]"

text \<open>
  \<^verbatim>\<open>Close\<close>: the lock, the guard \<^verbatim>\<open>c.i >= c.size\<close>, the two \<^verbatim>\<open>make(..., c.size)\<close>, the
  slice \<^verbatim>\<open>c.funcs[c.i:]\<close>, the callbacks, \<^verbatim>\<open>c.i = c.size\<close>, and the deferred unlock.
\<close>

definition Close_events :: "'ctx Closer \<Rightarrow> event list" where
  "Close_events c =
    [Lock, Read Field_i, Read Field_size] @
    (if i c \<ge> size_c c then [Unlock]
     else [Read Field_size, Read Field_size, Read Field_funcs, Read Field_i] @
          map Invoke [nat (i c) ..< length (funcs c)] @
          [Read Field_size, Write Field_i, Unlock])"

text \<open>
  \<^verbatim>\<open>CloseOne\<close>: the lock, \<^verbatim>\<open>prev := c.i\<close>, the guard, \<^verbatim>\<open>c.i++\<close>, the deferred unlock of the
  closure, and then \<^verbatim>\<open>c.funcs[prev](ctx)\<close>.
\<close>

definition CloseOne_events :: "'ctx Closer \<Rightarrow> event list" where
  "CloseOne_events c =
    [Lock, Read Field_i, Read Field_i, Read Field_size] @
    (if i c \<ge> size_c c then [Unlock]
     else [Read Field_i, Write Field_i, Unlock, Read Field_funcs, Invoke (nat (i c))])"

text \<open>\<^verbatim>\<open>Size\<close>: \<^verbatim>\<open>return c.size\<close>\<close>

definition Size_events :: "event list" where
  "Size_events = [Read Field_size]"

text \<open>Every read and every write of a field happens while the mutex is held.\<close>

fun guarded :: "bool \<Rightarrow> event list \<Rightarrow> bool" where
  "guarded held [] = True"
| "guarded held (Lock # es) = guarded True es"
| "guarded held (Unlock # es) = guarded False es"
| "guarded held (Read f # es) = (held \<and> guarded held es)"
| "guarded held (Write f # es) = (held \<and> guarded held es)"
| "guarded held (Invoke k # es) = guarded held es"

subsection \<open>Callbacks that act on a state outside the registry\<close>

text \<open>
  A Go callback may read and write state that other callbacks share: a variable of a
  closure, a channel. Such a callback takes the world as it finds it and returns its error
  with the world as it leaves it. It runs as one step, so what follows covers the executions
  in which the callbacks run one after another, in whatever order.
\<close>

type_synonym ('ctx, 'w) WFunc = "'ctx \<Rightarrow> 'w \<Rightarrow> error option \<times> 'w"

record ('ctx, 'w) WCloser =
  funcs_w :: "('ctx, 'w) WFunc list"
  size_w :: int
  i_w :: int

definition invariant_w :: "('ctx, 'w) WCloser \<Rightarrow> bool" where
  "invariant_w c = (0 \<le> i_w c \<and> i_w c \<le> size_w c \<and> size_w c = int (length (funcs_w c)))"

text \<open>
  The goroutine of \<^verbatim>\<open>execF\<close> in \<^verbatim>\<open>closer.go\<close>: it calls \<open>f\<close>, sends a non-nil error on its
  own channel and closes it. The result is what that channel delivers, and the world after
  the call.
\<close>

definition execF_w :: "'ctx \<Rightarrow> ('ctx, 'w) WFunc \<Rightarrow> 'w \<Rightarrow> error option list \<times> 'w" where
  "execF_w ctx f w = (case f ctx w of (err, w') \<Rightarrow> (if err \<noteq> None then [err] else [], w'))"

text \<open>
  The goroutines that \<^verbatim>\<open>Close\<close> has started for the callbacks \<open>fs\<close> run in the order
  \<open>sched\<close>, a list of positions in \<open>fs\<close>; goroutine \<open>k\<close> leaves its result in channel \<open>k\<close>.
\<close>

fun run_goroutines ::
  "'ctx \<Rightarrow> ('ctx, 'w) WFunc list \<Rightarrow> nat list \<Rightarrow> error option list list \<Rightarrow> 'w \<Rightarrow>
   error option list list \<times> 'w" where
  "run_goroutines ctx fs [] chans w = (chans, w)"
| "run_goroutines ctx fs (k # sched) chans w =
    (if k < length fs then
       (case execF_w ctx (fs ! k) w of
          (el, w') \<Rightarrow> run_goroutines ctx fs sched (chans[k := el]) w')
     else run_goroutines ctx fs sched chans w)"

text \<open>
  \<^verbatim>\<open>wg.Wait()\<close> returns once every goroutine has run, and a goroutine runs once: the
  schedule of an execution with \<open>n\<close> goroutines names each of \<open>0, ..., n - 1\<close> once.
\<close>

definition schedule_of :: "nat \<Rightarrow> nat list \<Rightarrow> bool" where
  "schedule_of n sched = (sort sched = [0..<n])"

text \<open>
  \<^verbatim>\<open>Close\<close> of \<^verbatim>\<open>closer.go\<close> under a schedule of its goroutines. After \<^verbatim>\<open>wg.Wait()\<close> the
  channels are read in the order of the launches, whatever the schedule was.
\<close>

definition Close_w ::
  "nat list \<Rightarrow> 'ctx \<Rightarrow> ('ctx, 'w) WCloser \<Rightarrow> 'w \<Rightarrow>
   (outcome \<times> ('ctx, 'w) WCloser) \<times> 'w" where
  "Close_w sched ctx c w =
    (let op = ''closer.Close'' in
     if i_w c \<ge> size_w c then ((Returned (Some (Errorf op ErrAllServicesClosed)), c), w)
     else if size_w c < 0 then ((Panicked, c), w)
     else if i_w c < 0 \<or> int (length (funcs_w c)) < i_w c then ((Panicked, c), w)
     else
       let fs = drop (nat (i_w c)) (funcs_w c) in
       case run_goroutines ctx fs sched (replicate (length fs) []) w of
         (fErrorChanels, w') \<Rightarrow>
           let fErrors = collect_chans [] fErrorChanels;
               c' = c\<lparr>i_w := size_w c\<rparr>
           in ((if length fErrors > 0 then Returned (Some (Errorf op (Join fErrors ''; '')))
                else Returned None, c'), w'))"

text \<open>
  \<^verbatim>\<open>execF\<close> and \<^verbatim>\<open>Close\<close> of \<^verbatim>\<open>closer/closer.go\<close>: the callbacks are called in the order of
  the slice, each in the world the one before it has left.
\<close>

definition execF_shared_w ::
  "'ctx \<Rightarrow> ('ctx, 'w) WFunc \<Rightarrow> nat \<Rightarrow> error option list \<Rightarrow> 'w \<Rightarrow>
   error option list option \<times> 'w" where
  "execF_shared_w ctx f cap errCh w =
    (case f ctx w of
       (err, w') \<Rightarrow>
         (if err \<noteq> None then (if length errCh < cap then Some (errCh @ [err]) else None)
          else Some errCh, w'))"

fun dispatch_w ::
  "'ctx \<Rightarrow> nat \<Rightarrow> ('ctx, 'w) WFunc list \<Rightarrow> error option list \<Rightarrow> 'w \<Rightarrow>
   error option list option \<times> 'w" where
  "dispatch_w ctx cap [] errCh w = (Some errCh, w)"
| "dispatch_w ctx cap (f # fs) errCh w =
    (case execF_shared_w ctx f cap errCh w of
       (None, w') \<Rightarrow> (None, w')
     | (Some errCh', w') \<Rightarrow> dispatch_w ctx cap fs errCh' w')"

definition Close_shared_w ::
  "'ctx \<Rightarrow> ('ctx, 'w) WCloser \<Rightarrow> 'w \<Rightarrow> (outcome \<times> ('ctx, 'w) WCloser) \<times> 'w" where
  "Close_shared_w ctx c w =
    (let op = ''closer.Close'' in
     if i_w c \<ge> size_w c then ((Returned (Some (Errorf op ErrAllServicesClosed)), c), w)
     else
       let len = size_w c - i_w c in
       if i_w c < 0 \<or> int (length (funcs_w c)) < i_w c then ((Panicked, c), w)
       else
         (case dispatch_w ctx (nat len) (drop (nat (i_w c)) (funcs_w c)) [] w of
            (None, w') \<Rightarrow> ((Blocked, c), w')
          | (Some fErrChan, w') \<Rightarrow>
              let fErrors = drain (nat len) fErrChan [];
                  c' = c\<lparr>i_w := size_w c\<rparr>
              in ((if length fErrors > 0 then Returned (Some (Errorf op (Join fErrors ''; '')))
                   else Returned None, c'), w')))"

text \<open>The non-nil results among those that \<open>g\<close> gives for the callbacks \<open>fs\<close>, in order.\<close>

definition sent :: "('f \<Rightarrow> error option) \<Rightarrow> 'f list \<Rightarrow> error option list" where
  "sent g fs = filter (\<lambda>v. v \<noteq> None) (map g fs)"

text \<open>
  A callback that is a function of the context alone, as a callback that leaves the world
  alone; and a registry of such callbacks.
\<close>

definition lift_Func :: "'ctx Func \<Rightarrow> ('ctx, 'w) WFunc" where
  "lift_Func f = (\<lambda>ctx w. (f ctx, w))"

definition lift_Closer :: "'ctx Closer \<Rightarrow> ('ctx, 'w) WCloser" where
  "lift_Closer c = \<lparr>funcs_w = map lift_Func (funcs c), size_w = size_c c, i_w = i c\<rparr>"


section \<open>What the loops compute\<close>

lemma registry_eq: "registry fs = \<lparr>funcs = fs, size_c = int (length fs), i = 0\<rparr>"
proof -
  have "foldl (\<lambda>c f. Add f c) c fs =
        c\<lparr>funcs := funcs c @ fs, size_c := size_c c + int (length fs)\<rparr>"
    for c :: "'a Closer"
    by (induction fs arbitrary: c) (simp_all add: Add_def)
  then show ?thesis by (simp add: registry_def zero_Closer_def)
qed

lemma messages_Nil [simp]: "messages ctx [] = []"
  by (simp add: messages_def failed_def)

lemma messages_Cons:
  "messages ctx (f # fs) =
    (case f ctx of None \<Rightarrow> messages ctx fs | Some e \<Rightarrow> Error e # messages ctx fs)"
  by (simp add: messages_def failed_def split: option.splits)

lemma length_failed: "length (failed ctx fs) \<le> length fs"
  by (simp add: failed_def)

lemma collect_chan_execF: "collect_chan acc (execF ctx f) = acc @ messages ctx [f]"
  by (cases "f ctx") (simp_all add: execF_def messages_Cons)

lemma collect_chans_execF: "collect_chans acc (map (execF ctx) fs) = acc @ messages ctx fs"
proof (induction fs arbitrary: acc)
  case Nil
  show ?case by simp
next
  case (Cons f fs)
  show ?case
    by (cases "f ctx") (simp_all add: Cons.IH collect_chan_execF messages_Cons)
qed

text \<open>
  With room for one value per callback the shared channel never fills up: every callback is
  called and the channel ends with the non-nil results in the order of the calls.
\<close>

lemma dispatch_fits:
  "length errCh + length fs \<le> cap \<Longrightarrow>
   dispatch ctx cap fs k errCh =
     (k + length fs, Some (errCh @ map (\<lambda>f. f ctx) (failed ctx fs)))"
proof (induction fs arbitrary: k errCh)
  case Nil
  show ?case by (simp add: failed_def)
next
  case (Cons f fs)
  show ?case
  proof (cases "f ctx")
    case None
    with Cons.prems Cons.IH [of errCh "Suc k"] show ?thesis
      by (simp add: execF_shared_def failed_def)
  next
    case (Some e)
    with Cons.prems Cons.IH [of "errCh @ [Some e]" "Suc k"] show ?thesis
      by (simp add: execF_shared_def failed_def)
  qed
qed

text \<open>As many rounds as the channel holds values empty it.\<close>

lemma drain_all:
  "length errCh \<le> n \<Longrightarrow> \<forall>v \<in> set errCh. v \<noteq> None \<Longrightarrow>
   drain n errCh acc = acc @ map (\<lambda>v. Error (the v)) errCh"
proof (induction n errCh acc rule: drain.induct)
  case (1 errCh fErrors)
  then show ?case by simp
next
  case (2 n fErrors)
  then show ?case by simp
next
  case (3 n err errCh fErrors)
  then show ?case by (cases err) simp_all
qed

lemma drain_dispatched:
  assumes "length fs \<le> n"
  shows "drain n (map (\<lambda>f. f ctx) (failed ctx fs)) [] = messages ctx fs"
proof -
  have "length (map (\<lambda>f. f ctx) (failed ctx fs)) \<le> n"
    using assms length_failed [of ctx fs] by simp
  moreover have "\<forall>v \<in> set (map (\<lambda>f. f ctx) (failed ctx fs)). v \<noteq> None"
    by (auto simp: failed_def)
  ultimately show ?thesis
    by (simp add: drain_all messages_def o_def)
qed

section \<open>\<^verbatim>\<open>Close\<close> on a registry with callbacks left\<close>

lemma Close_open:
  assumes "invariant c" "i c < size_c c"
  shows "Close ctx c =
    (if messages ctx (drop (nat (i c)) (funcs c)) = [] then Returned None
     else Returned (Some (Errorf ''closer.Close''
            (Join (messages ctx (drop (nat (i c)) (funcs c))) ''; ''))),
     [nat (i c) ..< length (funcs c)], c\<lparr>i := size_c c\<rparr>)"
  using assms
  by (simp add: Close_def invariant_def collect_chans_execF [of "[]", simplified] Let_def)

lemma Close_shared_open:
  assumes "invariant c" "i c < size_c c"
  shows "Close_shared ctx c =
    (if messages ctx (drop (nat (i c)) (funcs c)) = [] then Returned None
     else Returned (Some (Errorf ''closer.Close''
            (Join (messages ctx (drop (nat (i c)) (funcs c))) ''; ''))),
     [nat (i c) ..< length (funcs c)], c\<lparr>i := size_c c\<rparr>)"
proof -
  let ?fs = "drop (nat (i c)) (funcs c)"
  have len: "length ?fs = nat (size_c c - i c)"
    using assms by (auto simp: invariant_def)
  have d: "dispatch ctx (nat (size_c c - i c)) ?fs 0 [] =
            (length ?fs, Some (map (\<lambda>f. f ctx) (failed ctx ?fs)))"
    using dispatch_fits [of "[]" ?fs "nat (size_c c - i c)" ctx 0] len by simp
  have dr: "drain (nat (size_c c - i c)) (map (\<lambda>f. f ctx) (failed ctx ?fs)) [] =
            messages ctx ?fs"
    using drain_dispatched [of ?fs "nat (size_c c - i c)" ctx] len by simp
  have up: "nat (i c) + length ?fs = length (funcs c)"
    using assms by (simp add: invariant_def)
  show ?thesis
    using assms(2) assms(1) unfolding Close_shared_def Let_def d prod.case option.case dr
    by (simp add: up invariant_def)
qed

section \<open>The guard and the open case of \<^verbatim>\<open>CloseOne\<close>\<close>

lemma Close_guard:
  "size_c c \<le> i c \<Longrightarrow>
   Close ctx c = (Returned (Some (Errorf ''closer.Close'' ErrAllServicesClosed)), [], c)"
  by (simp add: Close_def)

lemma CloseOne_guard:
  "size_c c \<le> i c \<Longrightarrow>
   CloseOne ctx c = (Returned (Some (Errorf ''closer.CloseOne'' ErrAllServicesClosed)), [], c)"
  by (simp add: CloseOne_def)

lemma CloseOne_open:
  "invariant c \<Longrightarrow> i c < size_c c \<Longrightarrow>
   CloseOne ctx c = (Returned ((funcs c ! nat (i c)) ctx), [nat (i c)], c\<lparr>i := i c + 1\<rparr>)"
  by (simp add: CloseOne_def invariant_def Let_def)

text \<open>
  \<^verbatim>\<open>CloseOne\<close> called once per context of \<open>ctxs\<close> on a registry whose cursor is at \<open>k\<close>,
  with enough callbacks left: call \<open>j\<close> runs callback \<open>k + j\<close>.
\<close>

lemma CloseOne_seq_from:
  "k + length ctxs \<le> length fs \<Longrightarrow>
   CloseOne_seq ctxs \<lparr>funcs = fs, size_c = int (length fs), i = int k\<rparr> =
     (map (\<lambda>j. (Returned ((fs ! (k + j)) (ctxs ! j)), [k + j])) [0..<length ctxs],
      \<lparr>funcs = fs, size_c = int (length fs), i = int (k + length ctxs)\<rparr>)"
proof (induction ctxs arbitrary: k)
  case Nil
  show ?case by simp
next
  case (Cons ctx ctxs)
  from Cons.prems have lt: "k < length fs" and le: "Suc k + length ctxs \<le> length fs"
    by simp_all
  have step: "CloseOne ctx \<lparr>funcs = fs, size_c = int (length fs), i = int k\<rparr> =
        (Returned ((fs ! k) ctx), [k], \<lparr>funcs = fs, size_c = int (length fs), i = int (Suc k)\<rparr>)"
    using lt by (simp add: CloseOne_open invariant_def)
  have rest: "CloseOne_seq ctxs \<lparr>funcs = fs, size_c = int (length fs), i = int (Suc k)\<rparr> =
     (map (\<lambda>j. (Returned ((fs ! (Suc k + j)) (ctxs ! j)), [Suc k + j])) [0..<length ctxs],
      \<lparr>funcs = fs, size_c = int (length fs), i = int (Suc k + length ctxs)\<rparr>)"
    by (rule Cons.IH [OF le])
  show ?case
    unfolding CloseOne_seq.simps step prod.case rest
    by (simp add: map_upt_Suc del: upt_Suc)
qed

section \<open>Sequences of calls\<close>

lemma apply_op_exhausted: "is_close x \<Longrightarrow> size_c c \<le> i c \<Longrightarrow> apply_op x c = c"
  by (cases x) (simp_all add: Close_guard CloseOne_guard)

lemma run_exhausted: "list_all is_close ops \<Longrightarrow> size_c c \<le> i c \<Longrightarrow> run ops c = c"
  by (induction ops arbitrary: c) (simp_all add: apply_op_exhausted)

lemma apply_op_frame:
  "is_close x \<Longrightarrow> size_c (apply_op x c) = size_c c \<and> funcs (apply_op x c) = funcs c"
  by (cases x) (simp_all add: Close_def CloseOne_def Let_def)

lemma run_frame:
  "list_all is_close ops \<Longrightarrow> size_c (run ops c) = size_c c \<and> funcs (run ops c) = funcs c"
  by (induction ops arbitrary: c) (simp_all add: apply_op_frame)

lemma apply_op_cursor: "i c \<le> i (apply_op x c)"
  by (cases x) (simp_all add: Add_def Close_def CloseOne_def Let_def)

lemma run_cursor: "i c \<le> i (run ops c)"
proof (induction ops arbitrary: c)
  case Nil
  show ?case by simp
next
  case (Cons x xs)
  have "i c \<le> i (apply_op x c)" by (rule apply_op_cursor)
  also have "\<dots> \<le> i (run xs (apply_op x c))" by (rule Cons.IH)
  finally show ?case by simp
qed

lemma run_append: "run (xs @ ys) c = run ys (run xs c)"
  by (induction xs arbitrary: c) simp_all

lemma run_Adds: "run (map OpAdd fs) zero_Closer = registry fs"
proof -
  have "run (map OpAdd fs) c = foldl (\<lambda>c f. Add f c) c fs" for c :: "'a Closer"
    by (induction fs arbitrary: c) simp_all
  then show ?thesis by (simp add: registry_def)
qed

lemma run_CloseOnes:
  "k + n \<le> length fs \<Longrightarrow>
   run (replicate n (OpCloseOne ctx)) \<lparr>funcs = fs, size_c = int (length fs), i = int k\<rparr> =
     \<lparr>funcs = fs, size_c = int (length fs), i = int (k + n)\<rparr>"
proof (induction n arbitrary: k)
  case 0
  show ?case by simp
next
  case (Suc n)
  from Suc.prems have lt: "k < length fs" and le: "Suc k + n \<le> length fs"
    by simp_all
  have step: "snd (snd (CloseOne ctx \<lparr>funcs = fs, size_c = int (length fs), i = int k\<rparr>)) =
        \<lparr>funcs = fs, size_c = int (length fs), i = int (Suc k)\<rparr>"
    using lt by (simp add: CloseOne_open invariant_def)
  show ?case
    unfolding replicate_Suc run.simps apply_op.simps step Suc.IH [OF le]
    by simp
qed

section \<open>The invariant\<close>

lemma invariant_zero: "invariant zero_Closer"
  by (simp add: invariant_def zero_Closer_def)

lemma invariant_Add: "invariant c \<Longrightarrow> invariant (Add f c)"
  by (simp add: invariant_def Add_def)

lemma invariant_Close: "invariant c \<Longrightarrow> invariant (snd (snd (Close ctx c)))"
  by (cases "i c < size_c c") (simp_all add: Close_open Close_guard invariant_def)

lemma invariant_Close_shared:
  assumes "invariant c"
  shows "invariant (snd (snd (Close_shared ctx c)))"
proof (cases "i c < size_c c")
  case True
  with assms show ?thesis by (simp add: Close_shared_open) (simp add: invariant_def)
next
  case False
  with assms show ?thesis by (simp add: Close_shared_def)
qed

lemma invariant_CloseOne: "invariant c \<Longrightarrow> invariant (snd (snd (CloseOne ctx c)))"
  by (cases "i c < size_c c") (simp_all add: CloseOne_open CloseOne_guard invariant_def)

lemma invariant_reset: "invariant c \<Longrightarrow> invariant (reset c)"
  by (simp add: invariant_def reset_def)

lemma no_panic_Close: "invariant c \<Longrightarrow> fst (Close ctx c) \<noteq> Panicked"
  by (cases "i c < size_c c") (simp_all add: Close_open Close_guard)

lemma no_panic_CloseOne: "invariant c \<Longrightarrow> fst (CloseOne ctx c) \<noteq> Panicked"
  by (cases "i c < size_c c") (simp_all add: CloseOne_open CloseOne_guard)

lemma invariant_apply_op: "invariant c \<Longrightarrow> invariant (apply_op x c)"
  by (cases x) (simp_all add: invariant_Add invariant_Close invariant_CloseOne)

text \<open>Every registry that calls on the zero value lead to satisfies the invariant.\<close>

lemma invariant_run: "invariant c \<Longrightarrow> invariant (run ops c)"
  by (induction ops arbitrary: c) (simp_all add: invariant_apply_op)

text \<open>
  And every registry that satisfies it is reached from the zero value: \<^verbatim>\<open>Add\<close> each of its
  callbacks, then call \<^verbatim>\<open>CloseOne\<close> as many times as its cursor says.
\<close>

lemma invariant_reachable:
  assumes "invariant c"
  shows "c = run (map OpAdd (funcs c) @ replicate (nat (i c)) (OpCloseOne ctx)) zero_Closer"
proof -
  have le: "0 + nat (i c) \<le> length (funcs c)"
    using assms by (auto simp: invariant_def)
  have "run (map OpAdd (funcs c) @ replicate (nat (i c)) (OpCloseOne ctx)) zero_Closer =
        \<lparr>funcs = funcs c, size_c = int (length (funcs c)), i = int (0 + nat (i c))\<rparr>"
    unfolding run_append run_Adds registry_eq
    using run_CloseOnes [OF le, of ctx] by simp
  also have "\<dots> = c"
    using assms by (simp add: invariant_def)
  finally show ?thesis by simp
qed

text \<open>
  For callbacks that are functions of the context alone, the two variants of \<^verbatim>\<open>Close\<close> do
  the same on every registry that satisfies the invariant.
\<close>

lemma Close_shared_eq_Close:
  assumes "invariant c"
  shows "Close_shared ctx c = Close ctx c"
proof (cases "i c < size_c c")
  case True
  with assms show ?thesis by (simp add: Close_open Close_shared_open)
next
  case False
  then show ?thesis by (simp add: Close_def Close_shared_def)
qed

text \<open>
  Off the invariant the two variants of \<^verbatim>\<open>Close\<close> part: with \<^verbatim>\<open>size\<close> smaller than the
  slice, the shared channel is too small for two failures and the second send blocks.
\<close>

lemma Close_shared_blocks_off_invariant:
  "fst (Close_shared ()
     \<lparr>funcs = [\<lambda>u. Some (errorString ''a''), \<lambda>u. Some (errorString ''b'')],
      size_c = 1, i = 0\<rparr>) = Blocked \<and>
   fst (Close ()
     \<lparr>funcs = [\<lambda>u. Some (errorString ''a''), \<lambda>u. Some (errorString ''b'')],
      size_c = 1, i = 0\<rparr>) = Returned (Some (errorString ''closer.Close: a; b''))"
  by (simp add: Close_shared_def Close_def execF_shared_def execF_def Errorf_def Let_def)

section \<open>The two variants of \<^verbatim>\<open>Close\<close> on callbacks that act on a world\<close>

text \<open>
  In what follows \<open>g f\<close> is the error of the callback \<open>f\<close>, for callbacks whose error is
  the same in every world.
\<close>

lemma dispatch_w_fits:
  assumes "\<forall>f \<in> set fs. \<forall>w. fst (f ctx w) = g f" "length errCh + length fs \<le> cap"
  shows "fst (dispatch_w ctx cap fs errCh w) = Some (errCh @ sent g fs)"
  using assms
proof (induction fs arbitrary: errCh w)
  case Nil
  show ?case by (simp add: sent_def)
next
  case (Cons f fs)
  obtain err w' where fw: "f ctx w = (err, w')" by (cases "f ctx w")
  from Cons.prems(1) fw have g: "g f = err" by (metis fst_conv list.set_intros(1))
  from Cons.prems(1) have rest: "\<forall>f \<in> set fs. \<forall>w. fst (f ctx w) = g f" by simp
  show ?case
  proof (cases err)
    case None
    with fw g Cons.prems(2) Cons.IH [OF rest, of errCh w'] show ?thesis
      by (simp add: execF_shared_w_def sent_def)
  next
    case (Some e)
    with fw g Cons.prems(2) Cons.IH [OF rest, of "errCh @ [Some e]" w'] show ?thesis
      by (simp add: execF_shared_w_def sent_def)
  qed
qed

text \<open>Channel \<open>k\<close> holds the result of callback \<open>k\<close> as soon as goroutine \<open>k\<close> has run.\<close>

lemma run_goroutines_chans:
  assumes "\<forall>f \<in> set fs. \<forall>w. fst (f ctx w) = g f" "length chans = length fs"
  shows "length (fst (run_goroutines ctx fs sched chans w)) = length fs \<and>
         (\<forall>k < length fs. fst (run_goroutines ctx fs sched chans w) ! k =
            (if k \<in> set sched then (if g (fs ! k) \<noteq> None then [g (fs ! k)] else [])
             else chans ! k))"
  using assms(2)
proof (induction sched arbitrary: chans w)
  case Nil
  then show ?case by simp
next
  case (Cons j sched)
  show ?case
  proof (cases "j < length fs")
    case False
    with Cons.IH [OF Cons.prems, of w] show ?thesis by auto
  next
    case True
    obtain err w' where fw: "(fs ! j) ctx w = (err, w')" by (cases "(fs ! j) ctx w")
    from assms(1) True fw have g: "g (fs ! j) = err" by (metis fst_conv nth_mem)
    let ?el = "if err \<noteq> None then [err] else []"
    have len: "length (chans[j := ?el]) = length fs" using Cons.prems by simp
    have step: "run_goroutines ctx fs (j # sched) chans w =
                run_goroutines ctx fs sched (chans[j := ?el]) w'"
      using True fw by (simp add: execF_w_def)
    from Cons.IH [OF len, of w'] True Cons.prems g show ?thesis
      unfolding step by (auto simp: nth_list_update)
  qed
qed

lemma run_goroutines_all:
  assumes "\<forall>f \<in> set fs. \<forall>w. fst (f ctx w) = g f" "schedule_of (length fs) sched"
  shows "fst (run_goroutines ctx fs sched (replicate (length fs) []) w) =
         map (\<lambda>f. if g f \<noteq> None then [g f] else []) fs"
proof -
  have "set (sort sched) = set [0..<length fs]"
    using assms(2) by (simp only: schedule_of_def)
  then have s: "set sched = {0..<length fs}" by simp
  from run_goroutines_chans [OF assms(1), of "replicate (length fs) []" sched w] s
  show ?thesis
    by (intro nth_equalityI) simp_all
qed

lemma collect_chans_sent:
  "collect_chans acc (map (\<lambda>f. if g f \<noteq> None then [g f] else []) fs) =
   acc @ map (\<lambda>v. Error (the v)) (sent g fs)"
  by (induction fs arbitrary: acc) (auto simp: sent_def)

lemma drain_sent:
  assumes "length fs \<le> n"
  shows "drain n (sent g fs) [] = map (\<lambda>v. Error (the v)) (sent g fs)"
proof -
  have "length (sent g fs) \<le> length (map g fs)"
    unfolding sent_def by (rule length_filter_le)
  then have "length (sent g fs) \<le> n"
    using assms by simp
  moreover have "\<forall>v \<in> set (sent g fs). v \<noteq> None" by (simp add: sent_def)
  ultimately show ?thesis using drain_all [of "sent g fs" n "[]"] by simp
qed

lemma Close_w_open:
  assumes "invariant_w c" "i_w c < size_w c"
      and "schedule_of (length (drop (nat (i_w c)) (funcs_w c))) sched"
      and "\<forall>f \<in> set (drop (nat (i_w c)) (funcs_w c)). \<forall>w. fst (f ctx w) = g f"
  shows "fst (Close_w sched ctx c w) =
    (if sent g (drop (nat (i_w c)) (funcs_w c)) = [] then Returned None
     else Returned (Some (Errorf ''closer.Close''
            (Join (map (\<lambda>v. Error (the v)) (sent g (drop (nat (i_w c)) (funcs_w c)))) ''; ''))),
     c\<lparr>i_w := size_w c\<rparr>)"
proof -
  let ?fs = "drop (nat (i_w c)) (funcs_w c)"
  obtain chans w1 where
    rg: "run_goroutines ctx ?fs sched (replicate (length ?fs) []) w = (chans, w1)"
    by (cases "run_goroutines ctx ?fs sched (replicate (length ?fs) []) w")
  have chans: "chans = map (\<lambda>f. if g f \<noteq> None then [g f] else []) ?fs"
    using run_goroutines_all [OF assms(4) assms(3), of w] rg by simp
  have cc: "collect_chans [] chans = map (\<lambda>v. Error (the v)) (sent g ?fs)"
    unfolding chans using collect_chans_sent [of "[]" g ?fs] by simp
  have guard: "\<not> size_w c \<le> i_w c" "\<not> size_w c < 0"
              "\<not> (i_w c < 0 \<or> int (length (funcs_w c)) < i_w c)"
    using assms(1,2) by (auto simp: invariant_w_def)
  show ?thesis
    unfolding Close_w_def Let_def if_not_P [OF guard(1)] if_not_P [OF guard(2)]
      if_not_P [OF guard(3)] rg prod.case cc
    by simp
qed

lemma Close_shared_w_open:
  assumes "invariant_w c" "i_w c < size_w c"
      and "\<forall>f \<in> set (drop (nat (i_w c)) (funcs_w c)). \<forall>w. fst (f ctx w) = g f"
  shows "fst (Close_shared_w ctx c w) =
    (if sent g (drop (nat (i_w c)) (funcs_w c)) = [] then Returned None
     else Returned (Some (Errorf ''closer.Close''
            (Join (map (\<lambda>v. Error (the v)) (sent g (drop (nat (i_w c)) (funcs_w c)))) ''; ''))),
     c\<lparr>i_w := size_w c\<rparr>)"
proof -
  let ?fs = "drop (nat (i_w c)) (funcs_w c)"
  have len: "length ?fs = nat (size_w c - i_w c)"
    using assms(1,2) by (auto simp: invariant_w_def)
  obtain ch w2 where dw: "dispatch_w ctx (nat (size_w c - i_w c)) ?fs [] w = (ch, w2)"
    by (cases "dispatch_w ctx (nat (size_w c - i_w c)) ?fs [] w")
  have ch: "ch = Some (sent g ?fs)"
    using dispatch_w_fits [OF assms(3), of "[]" "nat (size_w c - i_w c)" w] len dw by simp
  have dr: "drain (nat (size_w c - i_w c)) (sent g ?fs) [] =
            map (\<lambda>v. Error (the v)) (sent g ?fs)"
    using drain_sent [of ?fs "nat (size_w c - i_w c)" g] len by simp
  have guard: "\<not> size_w c \<le> i_w c"
              "\<not> (i_w c < 0 \<or> int (length (funcs_w c)) < i_w c)"
    using assms(1,2) by (auto simp: invariant_w_def)
  show ?thesis
    unfolding Close_shared_w_def Let_def if_not_P [OF guard(1)] if_not_P [OF guard(2)]
      dw ch prod.case option.case dr
    by simp
qed

text \<open>
  On callbacks that are functions of the context alone, \<^verbatim>\<open>Close\<close> of \<^verbatim>\<open>closer.go\<close> does
  under every schedule what the model without a world says, and so does \<^verbatim>\<open>Close\<close> of
  \<^verbatim>\<open>closer/closer.go\<close>.
\<close>

lemma invariant_lift: "invariant_w (lift_Closer c) = invariant c"
  by (simp add: invariant_w_def invariant_def lift_Closer_def)

lemma sent_lift:
  "map (\<lambda>v. Error (the v)) (sent (\<lambda>f. fst (f ctx w)) (map lift_Func fs)) = messages ctx fs"
  by (simp add: sent_def messages_def failed_def lift_Func_def filter_map o_def)

lemma sent_lift_Nil:
  "sent (\<lambda>f. fst (f ctx w)) (map lift_Func fs) = [] \<longleftrightarrow> messages ctx fs = []"
  using sent_lift [of ctx w fs] by (metis map_is_Nil_conv)

lemma drop_lift:
  "drop (nat (i_w (lift_Closer c))) (funcs_w (lift_Closer c)) =
   map lift_Func (drop (nat (i c)) (funcs c))"
  by (simp add: lift_Closer_def drop_map)

lemma Close_w_lift:
  assumes "invariant c" "schedule_of (length (drop (nat (i c)) (funcs c))) sched"
  shows "fst (Close_w sched ctx (lift_Closer c) w) =
         (fst (Close ctx c), lift_Closer (snd (snd (Close ctx c))))"
proof (cases "i c < size_c c")
  case False
  then show ?thesis by (simp add: Close_w_def Close_def lift_Closer_def)
next
  case True
  let ?c = "lift_Closer c :: ('a, 'b) WCloser"
  let ?g = "\<lambda>f :: ('a, 'b) WFunc. fst (f ctx w)"
  have inv: "invariant_w ?c"
    using assms(1) by (simp add: invariant_lift)
  have lt: "i_w ?c < size_w ?c"
    using True by (simp add: lift_Closer_def)
  have sch: "schedule_of (length (drop (nat (i_w ?c)) (funcs_w ?c))) sched"
    using assms(2) by (simp add: drop_lift)
  have ind: "\<forall>f \<in> set (drop (nat (i_w ?c)) (funcs_w ?c)). \<forall>w'. fst (f ctx w') = ?g f"
    by (auto simp: drop_lift lift_Func_def)
  show ?thesis
    unfolding Close_w_open [OF inv lt sch ind] drop_lift sent_lift sent_lift_Nil
      Close_open [OF assms(1) True]
    by (simp add: lift_Closer_def)
qed

lemma Close_shared_w_lift:
  assumes "invariant c"
  shows "fst (Close_shared_w ctx (lift_Closer c) w) =
         (fst (Close_shared ctx c), lift_Closer (snd (snd (Close_shared ctx c))))"
proof (cases "i c < size_c c")
  case False
  then show ?thesis by (simp add: Close_shared_w_def Close_shared_def lift_Closer_def)
next
  case True
  let ?c = "lift_Closer c :: ('a, 'b) WCloser"
  let ?g = "\<lambda>f :: ('a, 'b) WFunc. fst (f ctx w)"
  have inv: "invariant_w ?c"
    using assms(1) by (simp add: invariant_lift)
  have lt: "i_w ?c < size_w ?c"
    using True by (simp add: lift_Closer_def)
  have ind: "\<forall>f \<in> set (drop (nat (i_w ?c)) (funcs_w ?c)). \<forall>w'. fst (f ctx w') = ?g f"
    by (auto simp: drop_lift lift_Func_def)
  show ?thesis
    unfolding Close_shared_w_open [OF inv lt ind] drop_lift sent_lift sent_lift_Nil
      Close_shared_open [OF assms(1) True]
    by (simp add: lift_Closer_def)
qed

section \<open>Properties of the registry\<close>

subsection \<open>\<^verbatim>\<open>CloseOne\<close> is first in, first out\<close>

text \<open>
  C1. On the registry made by adding the callbacks \<open>fs\<close>, as many \<^verbatim>\<open>CloseOne\<close> calls as
  there are callbacks run them one per call in the order they were added: call number \<open>k\<close>
  (from 0) invokes callback \<open>k\<close> and nothing else, and returns what that callback returned,
  as it is. One more call returns the error made from \<^verbatim>\<open>ErrAllServicesClosed\<close> and invokes
  nothing.
\<close>

theorem CloseOne_fifo:
  assumes "length ctxs = length fs"
  shows "CloseOne_seq ctxs (registry fs) =
           (map (\<lambda>k. (Returned ((fs ! k) (ctxs ! k)), [k])) [0..<length fs],
            (registry fs)\<lparr>i := int (length fs)\<rparr>) \<and>
         CloseOne ctx ((registry fs)\<lparr>i := int (length fs)\<rparr>) =
           (Returned (Some (Errorf ''closer.CloseOne'' ErrAllServicesClosed)), [],
            (registry fs)\<lparr>i := int (length fs)\<rparr>)"
  using assms CloseOne_seq_from [of 0 ctxs fs]
  by (simp add: registry_eq CloseOne_guard)

theorem CloseOne_fifo_witness:
  "length [(), ()] = length [\<lambda>u::unit. Some (errorString ''first''), \<lambda>u. None] \<and>
   CloseOne_seq [(), ()] (registry [\<lambda>u::unit. Some (errorString ''first''), \<lambda>u. None]) =
     ([(Returned (Some (errorString ''first'')), [0]), (Returned None, [1])],
      (registry [\<lambda>u::unit. Some (errorString ''first''), \<lambda>u. None])\<lparr>i := 2\<rparr>) \<and>
   CloseOne () ((registry [\<lambda>u::unit. Some (errorString ''first''), \<lambda>u. None])\<lparr>i := 2\<rparr>) =
     (Returned (Some (errorString ''closer.CloseOne: all services closed'')), [],
      (registry [\<lambda>u::unit. Some (errorString ''first''), \<lambda>u. None])\<lparr>i := 2\<rparr>)"
  using CloseOne_fifo [of "[(), ()]" "[\<lambda>u::unit. Some (errorString ''first''), \<lambda>u. None]" "()"]
  by (simp add: Errorf_def ErrAllServicesClosed_def upt_rec)

subsection \<open>The error \<^verbatim>\<open>Close\<close> returns\<close>

text \<open>
  C2. On a registry with callbacks left, where \<open>K = size - i\<close> remain and \<open>J\<close> of them
  fail, \<^verbatim>\<open>Close\<close> returns a non-nil error exactly when \<open>J > 0\<close>. The text of that error is
  \<^verbatim>\<open>"closer.Close: "\<close> followed by the messages of the failing callbacks, each once, in
  the order of the callbacks, joined by \<^verbatim>\<open>"; "\<close>. With \<open>J = 0\<close> it returns nil.
\<close>

theorem Close_aggregate_error:
  assumes "invariant c" "i c < size_c c"
  shows "((\<exists>e. fst (Close ctx c) = Returned (Some e)) \<longleftrightarrow>
            length (failed ctx (drop (nat (i c)) (funcs c))) > 0) \<and>
         (length (failed ctx (drop (nat (i c)) (funcs c))) > 0 \<longrightarrow>
            fst (Close ctx c) = Returned (Some (errorString
              (''closer.Close: '' @ Join (messages ctx (drop (nat (i c)) (funcs c))) ''; '')))) \<and>
         (length (failed ctx (drop (nat (i c)) (funcs c))) = 0 \<longrightarrow>
            fst (Close ctx c) = Returned None) \<and>
         int (length (drop (nat (i c)) (funcs c))) = size_c c - i c"
proof -
  have m: "messages ctx fs = [] \<longleftrightarrow> length (failed ctx fs) = 0" for fs :: "'a Func list"
    by (simp add: messages_def)
  have k: "int (length (drop (nat (i c)) (funcs c))) = size_c c - i c"
    using assms by (auto simp: invariant_def)
  show ?thesis
    using k by (simp add: Close_open [OF assms] m Errorf_def)
qed

theorem Close_aggregate_error_witness:
  "invariant (registry [\<lambda>u::unit. None, \<lambda>u. Some (errorString ''boom''),
                        \<lambda>u. Some (errorString ''bang'')]) \<and>
   i (registry [\<lambda>u::unit. None, \<lambda>u. Some (errorString ''boom''),
                \<lambda>u. Some (errorString ''bang'')]) <
     size_c (registry [\<lambda>u::unit. None, \<lambda>u. Some (errorString ''boom''),
                       \<lambda>u. Some (errorString ''bang'')]) \<and>
   length (failed ()
     (drop (nat (i (registry [\<lambda>u::unit. None, \<lambda>u. Some (errorString ''boom''),
                              \<lambda>u. Some (errorString ''bang'')])))
       (funcs (registry [\<lambda>u::unit. None, \<lambda>u. Some (errorString ''boom''),
                         \<lambda>u. Some (errorString ''bang'')])))) = 2 \<and>
   fst (Close () (registry [\<lambda>u::unit. None, \<lambda>u. Some (errorString ''boom''),
                            \<lambda>u. Some (errorString ''bang'')])) =
     Returned (Some (errorString ''closer.Close: boom; bang''))"
  using Close_aggregate_error
          [of "registry [\<lambda>u::unit. None, \<lambda>u. Some (errorString ''boom''),
                         \<lambda>u. Some (errorString ''bang'')]" "()"]
  by (simp add: registry_eq invariant_def failed_def messages_def)

subsection \<open>\<^verbatim>\<open>Close\<close> exhausts the registry\<close>

text \<open>
  C3. On a registry with callbacks left \<^verbatim>\<open>Close\<close> returns, and whatever it returns (nil or
  the error of the failures) it leaves the cursor \<^verbatim>\<open>i\<close> equal to \<^verbatim>\<open>size\<close> and \<^verbatim>\<open>Size()\<close> as
  it was. After any further \<^verbatim>\<open>Close\<close> and \<^verbatim>\<open>CloseOne\<close> calls the registry is still the
  same, so the cursor is never moved back, and each \<^verbatim>\<open>Close\<close> or \<^verbatim>\<open>CloseOne\<close> then returns
  the error made from \<^verbatim>\<open>ErrAllServicesClosed\<close>.
\<close>

theorem Close_exhausts_registry:
  assumes "invariant c" "i c < size_c c" "list_all is_close ops"
  shows "(\<exists>r. fst (Close ctx c) = Returned r) \<and>
         i (snd (snd (Close ctx c))) = size_c (snd (snd (Close ctx c))) \<and>
         Size (snd (snd (Close ctx c))) = Size c \<and>
         run ops (snd (snd (Close ctx c))) = snd (snd (Close ctx c)) \<and>
         Close ctx' (run ops (snd (snd (Close ctx c)))) =
           (Returned (Some (Errorf ''closer.Close'' ErrAllServicesClosed)), [],
            snd (snd (Close ctx c))) \<and>
         CloseOne ctx' (run ops (snd (snd (Close ctx c)))) =
           (Returned (Some (Errorf ''closer.CloseOne'' ErrAllServicesClosed)), [],
            snd (snd (Close ctx c)))"
proof -
  have st: "snd (snd (Close ctx c)) = c\<lparr>i := size_c c\<rparr>"
    by (simp add: Close_open [OF assms(1,2)])
  have r: "run ops (c\<lparr>i := size_c c\<rparr>) = c\<lparr>i := size_c c\<rparr>"
    using assms(3) by (simp add: run_exhausted)
  show ?thesis
    unfolding st r
    by (simp add: Close_open [OF assms(1,2)] Close_guard CloseOne_guard Size_def)
qed

theorem Close_exhausts_registry_witness:
  "invariant (registry [\<lambda>u::unit. Some (errorString ''boom'')]) \<and>
   i (registry [\<lambda>u::unit. Some (errorString ''boom'')]) <
     size_c (registry [\<lambda>u::unit. Some (errorString ''boom'')]) \<and>
   list_all is_close [OpCloseOne (), OpClose ()] \<and>
   fst (Close () (registry [\<lambda>u::unit. Some (errorString ''boom'')])) =
     Returned (Some (errorString ''closer.Close: boom'')) \<and>
   i (snd (snd (Close () (registry [\<lambda>u::unit. Some (errorString ''boom'')])))) = 1 \<and>
   Size (snd (snd (Close () (registry [\<lambda>u::unit. Some (errorString ''boom'')])))) = 1 \<and>
   CloseOne ()
     (run [OpCloseOne (), OpClose ()]
       (snd (snd (Close () (registry [\<lambda>u::unit. Some (errorString ''boom'')]))))) =
     (Returned (Some (errorString ''closer.CloseOne: all services closed'')), [],
      snd (snd (Close () (registry [\<lambda>u::unit. Some (errorString ''boom'')]))))"
  using Close_exhausts_registry [of "registry [\<lambda>u::unit. Some (errorString ''boom'')]"
                                    "[OpCloseOne (), OpClose ()]" "()" "()"]
  by (simp add: registry_eq invariant_def Close_def CloseOne_def execF_def Errorf_def
                ErrAllServicesClosed_def Size_def Let_def)

subsection \<open>Closing an exhausted registry\<close>

text \<open>
  C4. Whenever the cursor \<^verbatim>\<open>i\<close> has reached \<^verbatim>\<open>size\<close> (the zero-value registry included),
  \<^verbatim>\<open>Close\<close> returns the error made from \<^verbatim>\<open>ErrAllServicesClosed\<close>, invokes no callback and
  leaves \<^verbatim>\<open>funcs\<close>, \<^verbatim>\<open>size\<close> and \<^verbatim>\<open>i\<close> as they were.
\<close>

theorem Close_exhausted:
  "i c \<ge> size_c c \<Longrightarrow>
   Close ctx c = (Returned (Some (Errorf ''closer.Close'' ErrAllServicesClosed)), [], c)"
  by (simp add: Close_def)

theorem Close_exhausted_witness:
  "i (zero_Closer :: unit Closer) \<ge> size_c (zero_Closer :: unit Closer) \<and>
   Close () (zero_Closer :: unit Closer) =
     (Returned (Some (Errorf ''closer.Close'' ErrAllServicesClosed)), [], zero_Closer)"
  using Close_exhausted [of "zero_Closer :: unit Closer" "()"]
  by (simp add: zero_Closer_def)

subsection \<open>The text of the exhaustion error\<close>

text \<open>
  C5, as the code has it. Whenever \<^verbatim>\<open>Close\<close> or \<^verbatim>\<open>CloseOne\<close> fails because no callback is
  left (\<^verbatim>\<open>i >= size\<close>), the text of the error it returns contains the value of the constant
  \<^verbatim>\<open>ErrAllServicesClosed\<close>, \<^verbatim>\<open>"all services closed"\<close>.
\<close>

theorem exhausted_error_text:
  assumes "size_c c \<le> i c"
  shows "(\<exists>e. fst (Close ctx c) = Returned (Some e) \<and>
              Contains (Error e) ErrAllServicesClosed) \<and>
         (\<exists>e. fst (CloseOne ctx c) = Returned (Some e) \<and>
              Contains (Error e) ErrAllServicesClosed) \<and>
         ErrAllServicesClosed = ''all services closed''"
proof -
  have "Contains (Error (Errorf op ErrAllServicesClosed)) ErrAllServicesClosed" for op
    unfolding Contains_def Errorf_def error.sel sublist_def
    by (intro exI [of _ "op @ '': ''"] exI [of _ "[]"]) simp
  then show ?thesis
    using assms by (simp add: Close_guard CloseOne_guard) (simp add: ErrAllServicesClosed_def)
qed

theorem exhausted_error_text_witness:
  "size_c (zero_Closer :: unit Closer) \<le> i (zero_Closer :: unit Closer) \<and>
   (\<exists>e. fst (Close () (zero_Closer :: unit Closer)) = Returned (Some e) \<and>
        Contains (Error e) ErrAllServicesClosed) \<and>
   (\<exists>e. fst (CloseOne () (zero_Closer :: unit Closer)) = Returned (Some e) \<and>
        Contains (Error e) ErrAllServicesClosed)"
  using exhausted_error_text [of "zero_Closer :: unit Closer" "()"]
  by (simp add: zero_Closer_def)

text \<open>
  The text \<^verbatim>\<open>"all callbacks already closed"\<close> is in neither error: on the zero-value
  registry \<^verbatim>\<open>Close\<close> returns \<^verbatim>\<open>"closer.Close: all services closed"\<close> and \<^verbatim>\<open>CloseOne\<close>
  returns \<^verbatim>\<open>"closer.CloseOne: all services closed"\<close>.
\<close>

theorem sentinel_counterexample:
  "fst (Close () (zero_Closer :: unit Closer)) =
     Returned (Some (errorString ''closer.Close: all services closed'')) \<and>
   \<not> Contains ''closer.Close: all services closed'' ''all callbacks already closed'' \<and>
   fst (CloseOne () (zero_Closer :: unit Closer)) =
     Returned (Some (errorString ''closer.CloseOne: all services closed'')) \<and>
   \<not> Contains ''closer.CloseOne: all services closed'' ''all callbacks already closed''"
proof -
  have a: "\<not> Contains ''closer.Close: all services closed'' ''all callbacks already closed''"
    unfolding Contains_def by code_simp
  have b: "\<not> Contains ''closer.CloseOne: all services closed'' ''all callbacks already closed''"
    unfolding Contains_def by code_simp
  show ?thesis
    using a b
    by (simp add: Close_def CloseOne_def zero_Closer_def Errorf_def ErrAllServicesClosed_def)
qed

subsection \<open>The cursor\<close>

text \<open>
  C6, as the code has it. No sequence of \<^verbatim>\<open>Add\<close>, \<^verbatim>\<open>Close\<close> and \<^verbatim>\<open>CloseOne\<close> calls ever
  leaves the cursor \<^verbatim>\<open>i\<close> lower than it found it; and once \<^verbatim>\<open>i == size\<close>, no sequence of
  \<^verbatim>\<open>Close\<close> and \<^verbatim>\<open>CloseOne\<close> calls leads to a registry with \<^verbatim>\<open>i < size\<close>.
\<close>

theorem cursor_never_decreases:
  "i c \<le> i (run ops c) \<and>
   (list_all is_close ops \<and> i c = size_c c \<longrightarrow> i (run ops c) = size_c (run ops c))"
  by (simp add: run_cursor run_exhausted)

theorem cursor_never_decreases_witness:
  "i (registry [\<lambda>u::unit. None]) \<le>
     i (run [OpClose (), OpCloseOne ()] (registry [\<lambda>u::unit. None])) \<and>
   list_all is_close [OpCloseOne (), OpClose ()] \<and>
   i (run [OpClose ()] (registry [\<lambda>u::unit. None])) =
     size_c (run [OpClose ()] (registry [\<lambda>u::unit. None])) \<and>
   i (run [OpCloseOne (), OpClose ()] (run [OpClose ()] (registry [\<lambda>u::unit. None]))) =
     size_c (run [OpCloseOne (), OpClose ()] (run [OpClose ()] (registry [\<lambda>u::unit. None])))"
  using cursor_never_decreases [of "registry [\<lambda>u::unit. None]" "[OpClose (), OpCloseOne ()]"]
        cursor_never_decreases [of "run [OpClose ()] (registry [\<lambda>u::unit. None])"
                                   "[OpCloseOne (), OpClose ()]"]
  by (simp add: registry_eq Close_def CloseOne_def execF_def Let_def)

text \<open>
  The way back is open, though. After \<^verbatim>\<open>Add\<close> and \<^verbatim>\<open>Close\<close> the registry has
  \<^verbatim>\<open>i == size\<close>, and one more \<^verbatim>\<open>Add\<close> gives \<^verbatim>\<open>i < size\<close> again; and \<^verbatim>\<open>reset\<close> of
  \<^verbatim>\<open>closer/closer.go\<close> moves the cursor of an exhausted registry down to 0.
\<close>

theorem reopen_counterexample:
  "i (run [OpAdd (\<lambda>u::unit. None), OpClose ()] zero_Closer) =
     size_c (run [OpAdd (\<lambda>u::unit. None), OpClose ()] zero_Closer) \<and>
   i (run [OpAdd (\<lambda>u::unit. None), OpClose (), OpAdd (\<lambda>u. None)] zero_Closer) <
     size_c (run [OpAdd (\<lambda>u::unit. None), OpClose (), OpAdd (\<lambda>u. None)] zero_Closer) \<and>
   i (reset (snd (snd (Close_shared () (registry [\<lambda>u::unit. None]))))) <
     i (snd (snd (Close_shared () (registry [\<lambda>u::unit. None])))) \<and>
   i (reset (snd (snd (Close_shared () (registry [\<lambda>u::unit. None]))))) <
     size_c (reset (snd (snd (Close_shared () (registry [\<lambda>u::unit. None])))))"
  by (simp add: registry_eq zero_Closer_def Add_def Close_def Close_shared_def reset_def
                execF_def execF_shared_def Let_def)

subsection \<open>\<^verbatim>\<open>Size\<close>\<close>

text \<open>
  C7. After \<^verbatim>\<open>Add\<close> has been called \<open>N\<close> times on the zero value, \<^verbatim>\<open>Size()\<close> is \<open>N\<close> and the
  stored callbacks are the ones added, in order; each \<^verbatim>\<open>Add\<close> raises \<^verbatim>\<open>Size()\<close> by one;
  and no sequence of \<^verbatim>\<open>Close\<close> and \<^verbatim>\<open>CloseOne\<close> calls changes \<^verbatim>\<open>Size()\<close> or the stored
  callbacks.
\<close>

theorem Size_counts_Adds:
  assumes "list_all is_close ops"
  shows "Size (registry fs) = int (length fs) \<and> funcs (registry fs) = fs \<and>
         Size (Add f c) = Size c + 1 \<and>
         Size (run ops c) = Size c \<and> funcs (run ops c) = funcs c"
  using run_frame [OF assms, of c] by (simp add: registry_eq Size_def Add_def)

theorem Size_counts_Adds_witness:
  "list_all is_close [OpCloseOne (), OpClose (), OpCloseOne ()] \<and>
   Size (registry [\<lambda>u::unit. None, \<lambda>u. None]) = 2 \<and>
   Size (Add (\<lambda>u. None) (registry [\<lambda>u::unit. None, \<lambda>u. None])) = 3 \<and>
   Size (run [OpCloseOne (), OpClose (), OpCloseOne ()]
          (registry [\<lambda>u::unit. None, \<lambda>u. None])) = 2 \<and>
   funcs (run [OpCloseOne (), OpClose (), OpCloseOne ()]
           (registry [\<lambda>u::unit. None, \<lambda>u. None])) = [\<lambda>u. None, \<lambda>u. None]"
  using Size_counts_Adds [of "[OpCloseOne (), OpClose (), OpCloseOne ()]"
                             "[\<lambda>u::unit. None, \<lambda>u. None]" "\<lambda>u. None"
                             "registry [\<lambda>u::unit. None, \<lambda>u. None]"]
  by simp

subsection \<open>No access out of range\<close>

text \<open>
  C8. \<^verbatim>\<open>Add\<close>, \<^verbatim>\<open>Close\<close> and \<^verbatim>\<open>CloseOne\<close> keep the invariant
  \<^verbatim>\<open>0 <= i <= size\<close> and \<^verbatim>\<open>size == len(funcs)\<close>, and so does every sequence of them;
  the zero value has it. Under it, the index \<^verbatim>\<open>prev\<close> that
  \<^verbatim>\<open>CloseOne\<close> uses once its guard has passed is within \<^verbatim>\<open>funcs\<close>, the lower bound of the
  slice \<^verbatim>\<open>funcs[i:]\<close> that \<^verbatim>\<open>Close\<close> takes is within \<^verbatim>\<open>0..len(funcs)\<close>, and neither method
  panics.
\<close>

theorem invariant_kept:
  assumes "invariant c"
  shows "invariant (Add f c) \<and> invariant (snd (snd (Close ctx c))) \<and>
         invariant (snd (snd (CloseOne ctx c))) \<and>
         invariant (run ops c) \<and> invariant (run ops zero_Closer) \<and>
         (i c < size_c c \<longrightarrow> 0 \<le> i c \<and> i c < int (length (funcs c))) \<and>
         0 \<le> i c \<and> i c \<le> int (length (funcs c)) \<and>
         fst (Close ctx c) \<noteq> Panicked \<and> fst (CloseOne ctx c) \<noteq> Panicked"
  using assms
  by (simp add: invariant_Add invariant_Close invariant_CloseOne invariant_run invariant_zero
                no_panic_Close no_panic_CloseOne)
     (simp add: invariant_def)

theorem invariant_kept_witness:
  "invariant (registry [\<lambda>u::unit. None]) \<and>
   i (registry [\<lambda>u::unit. None]) < size_c (registry [\<lambda>u::unit. None]) \<and>
   invariant (Add (\<lambda>u. None) (registry [\<lambda>u::unit. None])) \<and>
   invariant (snd (snd (Close () (registry [\<lambda>u::unit. None])))) \<and>
   invariant (snd (snd (CloseOne () (registry [\<lambda>u::unit. None])))) \<and>
   invariant (run [OpCloseOne (), OpAdd (\<lambda>u. None)] (registry [\<lambda>u::unit. None])) \<and>
   i (registry [\<lambda>u::unit. None]) < int (length (funcs (registry [\<lambda>u::unit. None]))) \<and>
   fst (Close () (registry [\<lambda>u::unit. None])) = Returned None \<and>
   fst (CloseOne () (registry [\<lambda>u::unit. None])) = Returned None"
  using invariant_kept [of "registry [\<lambda>u::unit. None]" "\<lambda>u. None" "()"
                           "[OpCloseOne (), OpAdd (\<lambda>u. None)]"]
  by (simp add: registry_eq invariant_def Close_def CloseOne_def execF_def)

subsection \<open>The two variants of \<^verbatim>\<open>Close\<close>\<close>




subsection \<open>Which accesses hold the lock\<close>

text \<open>
  C10. \<^verbatim>\<open>Add\<close> and \<^verbatim>\<open>Close\<close> read and write the fields only while they hold the mutex.
  \<^verbatim>\<open>CloseOne\<close> does so only when its guard fails the call: otherwise it reads \<^verbatim>\<open>c.funcs\<close>
  after the unlock. \<^verbatim>\<open>Size\<close> reads \<^verbatim>\<open>c.size\<close> without ever taking the mutex.
\<close>

theorem lock_discipline:
  "guarded False Add_events \<and> guarded False (Close_events c) \<and>
   guarded False (CloseOne_events c) = (size_c c \<le> i c) \<and>
   \<not> guarded False Size_events"
proof -
  have skip: "guarded h (map Invoke ks @ es) = guarded h es" for h ks es
    by (induction ks) simp_all
  show ?thesis
    by (simp add: Add_events_def Close_events_def CloseOne_events_def Size_events_def skip)
qed

end
